theory Spec2Isabelle
  imports Complex_Main "HOL-Library.Word"
begin

section \<open>Machine types and fatal outcomes\<close>

text \<open>
  Modelled from the spec: the typedefs \<open>index_t\<close> and \<open>real_t\<close> are declared in
  \<open>src/base/common.h\<close>, which is not among the sources. The spec calls the counts and
  indices "unsigned integers"; \<open>index_t\<close> is taken as an unsigned 32-bit integer. A C++
  \<open>int\<close> is 32 bits wide and is kept as a \<open>32 word\<close> too, read through \<open>sint\<close>. In
  \<open>count / total\<close> and \<open>id * gap\<close> the usual arithmetic conversions turn the \<open>int\<close>
  operand into the unsigned type with the same bits, so both live in one word type and the
  arithmetic on \<open>index_t\<close> wraps modulo \<open>2 ^ 32\<close>.
\<close>

type_synonym index_t = "32 word"
type_synonym c_int = "32 word"

text \<open>
  What ends a call without a result: undefined behaviour of the C++ arithmetic (a division
  by zero, a signed overflow), a failed \<open>CHECK_EQ\<close>, and the other invariant violations.
  Modelled from the spec: the macro \<open>CHECK_EQ\<close> is defined outside the sources; the spec
  says of a violated invariant that "the process terminates with a diagnostic rather than
  attempting recovery".
\<close>

datatype fault = DivisionByZero | SignedOverflow | CheckFailed | InvariantViolation

section \<open>Row ranges of the worker threads (loss.h, getStart and getEnd)\<close>

text \<open>
  \<open>getStart\<close> and \<open>getEnd\<close>, statement by statement. The parameters \<open>total\<close> and
  \<open>id\<close> are written \<open>total'\<close> and \<open>id'\<close>. The division comes first, so a
  \<open>total\<close> of zero is the fault that is reported; \<open>id + 1\<close> and \<open>total - 1\<close> are
  \<open>int\<close> arithmetic and overflow at the ends of the \<open>int\<close> range.
\<close>

definition getStart :: "index_t \<Rightarrow> c_int \<Rightarrow> c_int \<Rightarrow> fault + index_t" where
  "getStart count total' id' =
     (if total' = 0 then Inl DivisionByZero
      else
        let gap = count div total';
            start_id = id' * gap
        in Inr start_id)"

definition getEnd :: "index_t \<Rightarrow> c_int \<Rightarrow> c_int \<Rightarrow> fault + index_t" where
  "getEnd count total' id' =
     (if total' = 0 then Inl DivisionByZero
      else
        let gap = count div total';
            remain = count mod total'
        in if sint id' = 2 ^ 31 - 1 then Inl SignedOverflow
           else
             let end_index = (id' + 1) * gap
             in if sint total' = - (2 ^ 31) then Inl SignedOverflow
                else if id' = total' - 1 then Inr (end_index + remain)
                else Inr end_index)"

text \<open>The rows that worker \<open>t\<close> of \<open>total\<close> processes: from its start up to its end.\<close>

definition thread_rows :: "index_t \<Rightarrow> c_int \<Rightarrow> nat \<Rightarrow> nat set" where
  "thread_rows count total' t =
     (case getStart count total' (word_of_nat t) of
        Inl _ \<Rightarrow> {}
      | Inr s \<Rightarrow>
          (case getEnd count total' (word_of_nat t) of
             Inl _ \<Rightarrow> {}
           | Inr e \<Rightarrow> {unat s ..< unat e}))"

section \<open>The Loss class (loss.h)\<close>

text \<open>
  Modelled from the spec: \<open>real_t\<close> (\<open>src/base/common.h\<close>) is the "float" of the
  spec. It is modelled by the real numbers: rounding, infinities and NaN are not
  represented. The statements proved below about \<open>real_t\<close> values either compare with
  zero only, or compute with small integers that a \<open>float\<close> holds exactly. \<open>size_t\<close>
  is 64 bits wide.

  A field whose C++ name ends in an underscore (\<open>norm_\<close>, \<open>threadNumber_\<close>) ends in a
  prime here, and a parameter whose name is a constant of the logic gets another suffix.
\<close>

type_synonym real_t = real
type_synonym size_t = "64 word"

text \<open>The score functions a Loss can point to (linear_score.h, fm_score.h, ffm_score.h).\<close>

datatype Score = LinearScore | FMScore | FFMScore

text \<open>
  Modelled from the spec: \<open>ThreadPool\<close> (\<open>src/base/thread_pool.h\<close>) is "a fixed-size
  worker thread pool"; it is kept as the number of workers it was constructed with.
\<close>

datatype ThreadPool = ThreadPool size_t

record Loss =
  score_func' :: Score
  norm' :: bool
  pool' :: ThreadPool
  threadNumber' :: size_t

text \<open>
  \<open>Loss::Initialize\<close>. The result of \<open>std::thread::hardware_concurrency()\<close>, an
  \<open>unsigned int\<close> that the C++ standard allows to be \<open>0\<close>, is an argument.
\<close>

definition Initialize :: "Score \<Rightarrow> bool \<Rightarrow> 32 word \<Rightarrow> Loss" where
  "Initialize score norm0 hardware_concurrency =
     \<lparr>score_func' = score,
      norm' = norm0,
      pool' = ThreadPool (ucast hardware_concurrency),
      threadNumber' = ucast hardware_concurrency\<rparr>"

text \<open>\<open>Loss::sigmoid\<close>, over the reals.\<close>

definition sigmoid :: "real_t \<Rightarrow> real_t" where
  "sigmoid x = 1 / (1 + exp (- x))"

text \<open>
  \<open>Loss::Sigmoid\<close>: the \<open>CHECK_EQ\<close> on the two sizes, then the loop over
  \<open>i = 0, ..., pred.size() - 1\<close> that overwrites \<open>new_pred[i]\<close>. A failed check ends
  the process; it is the result \<open>Inl CheckFailed\<close>.
\<close>

function Sigmoid_loop :: "real_t list \<Rightarrow> real_t list \<Rightarrow> nat \<Rightarrow> real_t list" where
  "Sigmoid_loop pred new_pred i =
     (if i < length pred
      then Sigmoid_loop pred (new_pred[i := sigmoid (pred ! i)]) (Suc i)
      else new_pred)"
  by pat_completeness auto
termination
  by (relation "measure (\<lambda>(pred, new_pred, i). length pred - i)") auto

definition Sigmoid :: "real_t list \<Rightarrow> real_t list \<Rightarrow> fault + real_t list" where
  "Sigmoid pred new_pred =
     (if length pred \<noteq> length new_pred then Inl CheckFailed
      else Inr (Sigmoid_loop pred new_pred 0))"

text \<open>\<open>Loss::Sign\<close>: the same check and loop, storing \<open>pred[i] >= 0 ? 1 : 0\<close>.\<close>

function Sign_loop :: "real_t list \<Rightarrow> real_t list \<Rightarrow> nat \<Rightarrow> real_t list" where
  "Sign_loop pred new_pred i =
     (if i < length pred
      then Sign_loop pred (new_pred[i := (if pred ! i \<ge> 0 then 1 else 0)]) (Suc i)
      else new_pred)"
  by pat_completeness auto
termination
  by (relation "measure (\<lambda>(pred, new_pred, i). length pred - i)") auto

definition Sign :: "real_t list \<Rightarrow> real_t list \<Rightarrow> fault + real_t list" where
  "Sign pred new_pred =
     (if length pred \<noteq> length new_pred then Inl CheckFailed
      else Inr (Sign_loop pred new_pred 0))"

text \<open>
  Modelled from the spec: \<open>Loss::Evalute\<close> is pure virtual in loss.h and the variants
  that implement it (squared, cross-entropy and hinge loss) are not among the sources. The
  spec: "Inputs must be equal-length sequences; mismatched lengths are a fatal invariant
  violation." What a variant computes from two vectors of equal length is the parameter
  \<open>variant\<close>.
\<close>

definition Evalute ::
  "(real_t list \<Rightarrow> real_t list \<Rightarrow> real_t) \<Rightarrow> real_t list \<Rightarrow> real_t list \<Rightarrow> fault + real_t" where
  "Evalute variant pred label =
     (if length pred \<noteq> length label then Inl CheckFailed
      else Inr (variant pred label))"

text \<open>
  The test double of loss_test.cc, \<open>TestLoss::Evalute\<close>, returns \<open>0.0\<close> whatever it is
  given. It is not a registered variant.
\<close>

definition TestLoss_Evalute :: "real_t list \<Rightarrow> real_t list \<Rightarrow> fault + real_t" where
  "TestLoss_Evalute pred label = Inr 0"

section \<open>Model, batch and score functions\<close>

text \<open>
  Modelled from the spec: \<open>SparseRow\<close> and \<open>DMatrix\<close> are declared in
  \<open>src/data/data_structure.h\<close>, which is not among the sources. The spec: a
  \<open>DMatrix\<close> is an "ordered sequence of (label: float, row: SparseRow)", and a
  \<open>SparseRow\<close> is "an ordered sequence of (feature_index: unsigned, value: float,
  field_index: unsigned -- used only by ffm)". loss_test.cc uses the members
  \<open>matrix.Y[i]\<close> and \<open>matrix.row[i]\<close>. The factor that
  \<open>CalcScore\<close> receives as \<open>norm_factor\<close> is kept per row in \<open>row_norm\<close>; a
  batch whose rows were not normalised carries the factor \<open>1\<close>.
\<close>

record Node =
  feat_id :: nat
  feat_val :: real_t
  field_id :: nat

type_synonym SparseRow = "Node list"

record DMatrix =
  Y :: "real_t list"
  row :: "SparseRow list"
  row_norm :: "real_t list"

text \<open>
  Modelled from the spec: \<open>Model\<close> is declared in \<open>src/data/model_parameters.h\<close>,
  which is not among the sources. The spec: it "owns \<open>w: sequence<float>\<close> sized
  \<open>num_feature\<close> (plus bias slot), and for fm/ffm, \<open>v: sequence<float>\<close> sized
  \<open>num_feature * num_K\<close> (ffm: \<open>num_feature * num_field * num_K\<close>)". The bias is a
  field of its own here. The latent vector of feature \<open>i\<close> is the \<open>i\<close>-th block of
  \<open>num_K\<close> entries of \<open>v\<close>; for ffm the vector of feature \<open>i\<close> towards field
  \<open>f\<close> is block \<open>i * num_field + f\<close>.
\<close>

record Model =
  num_feat :: nat
  num_field :: nat
  num_K :: nat
  bias :: real_t
  param_w :: "real_t list"
  param_v :: "real_t list"

definition fm_vector :: "Model \<Rightarrow> nat \<Rightarrow> real_t list" where
  "fm_vector model i = take (num_K model) (drop (i * num_K model) (param_v model))"

definition ffm_vector :: "Model \<Rightarrow> nat \<Rightarrow> nat \<Rightarrow> real_t list" where
  "ffm_vector model i f =
     take (num_K model) (drop ((i * num_field model + f) * num_K model) (param_v model))"

definition dot :: "real_t list \<Rightarrow> real_t list \<Rightarrow> real_t" where
  "dot xs ys = sum_list (map2 (*) xs ys)"

text \<open>The pairs of positions \<open>i < j\<close> of a row, in order.\<close>

fun pairs :: "'a list \<Rightarrow> ('a \<times> 'a) list" where
  "pairs [] = []"
| "pairs (x # xs) = map (Pair x) xs @ pairs xs"

text \<open>
  Modelled from the spec: the score functions (linear_score.cc, fm_score.cc,
  ffm_score.cc) are not among the sources. The spec: \<open>CalcScore(row, model,
  norm_factor)\<close> "computes bias + linear term \<open>\<Sum> w[i] * x_i\<close>, plus, for fm,
  \<open>\<Sum>_{i<j} <v_i, v_j> * x_i * x_j\<close>, plus, for ffm, the field-aware variant
  \<open>\<Sum>_{i<j} <v_{i,field(j)}, v_{j,field(i)}> * x_i * x_j\<close>. \<open>norm_factor\<close> rescales the
  row's contribution". An out-of-range field index and a model whose arrays do not have
  the sizes of its shape are fatal invariant violations; an out-of-range feature index,
  which would read outside \<open>w\<close> or \<open>v\<close>, is treated the same way.
\<close>

definition linear_term :: "Model \<Rightarrow> SparseRow \<Rightarrow> real_t" where
  "linear_term model r = (\<Sum>n\<leftarrow>r. param_w model ! feat_id n * feat_val n)"

definition fm_term :: "Model \<Rightarrow> SparseRow \<Rightarrow> real_t" where
  "fm_term model r =
     (\<Sum>(a, b)\<leftarrow>pairs r.
        dot (fm_vector model (feat_id a)) (fm_vector model (feat_id b)) * feat_val a * feat_val b)"

definition ffm_term :: "Model \<Rightarrow> SparseRow \<Rightarrow> real_t" where
  "ffm_term model r =
     (\<Sum>(a, b)\<leftarrow>pairs r.
        dot (ffm_vector model (feat_id a) (field_id b)) (ffm_vector model (feat_id b) (field_id a))
          * feat_val a * feat_val b)"

definition shape_ok :: "Score \<Rightarrow> Model \<Rightarrow> bool" where
  "shape_ok score model =
     (length (param_w model) = num_feat model \<and>
      (case score of
         LinearScore \<Rightarrow> True
       | FMScore \<Rightarrow> length (param_v model) = num_feat model * num_K model
       | FFMScore \<Rightarrow>
           length (param_v model) = num_feat model * num_field model * num_K model))"

definition row_ok :: "Score \<Rightarrow> Model \<Rightarrow> SparseRow \<Rightarrow> bool" where
  "row_ok score model r =
     list_all (\<lambda>n. feat_id n < num_feat model \<and>
                   (score = FFMScore \<longrightarrow> field_id n < num_field model)) r"

definition CalcScore :: "Score \<Rightarrow> SparseRow \<Rightarrow> Model \<Rightarrow> real_t \<Rightarrow> fault + real_t" where
  "CalcScore score r model norm_factor =
     (if \<not> shape_ok score model \<or> \<not> row_ok score model r then Inl InvariantViolation
      else Inr (bias model + norm_factor *
        (linear_term model r +
           (case score of
              LinearScore \<Rightarrow> 0
            | FMScore \<Rightarrow> fm_term model r
            | FFMScore \<Rightarrow> ffm_term model r))))"

section \<open>Prediction\<close>

text \<open>
  Modelled from the spec: loss.h declares \<open>Loss::Predict\<close>; its body (loss.cc) is not
  among the sources. The spec: "for every row, sets \<open>out_predictions[row] =
  Score.CalcScore(row, model, norm)\<close>; parallelized by row-range partitioning across the
  thread pool", where "thread \<open>t\<close> owns" the rows from \<open>getStart\<close> up to \<open>getEnd\<close>,
  and all tasks complete before the function returns. The tasks write different entries of
  the output and only read the model, so they are run one after the other here, in the
  order of their thread index. The model is passed through every step, as the C++ passes
  the reference \<open>Model&\<close>. A row or an output entry that does not exist is a fatal
  invariant violation.
\<close>

definition row_score :: "Loss \<Rightarrow> DMatrix \<Rightarrow> Model \<Rightarrow> nat \<Rightarrow> fault + real_t" where
  "row_score L matrix model i =
     CalcScore (score_func' L) (row matrix ! i) model
       (if norm' L then row_norm matrix ! i else 1)"

definition pred_row ::
  "Loss \<Rightarrow> DMatrix \<Rightarrow> nat \<Rightarrow> Model \<times> real_t list \<Rightarrow> fault + Model \<times> real_t list" where
  "pred_row L matrix i st =
     (case st of (model, pred) \<Rightarrow>
        if i < length (row matrix) \<and> i < length (row_norm matrix) \<and> i < length pred then
          (case row_score L matrix model i of
             Inl e \<Rightarrow> Inl e
           | Inr s \<Rightarrow> Inr (model, pred[i := s]))
        else Inl InvariantViolation)"

fun pred_thread ::
  "Loss \<Rightarrow> DMatrix \<Rightarrow> nat list \<Rightarrow> Model \<times> real_t list \<Rightarrow> fault + Model \<times> real_t list" where
  "pred_thread L matrix [] st = Inr st"
| "pred_thread L matrix (i # rest) st =
     (case pred_row L matrix i st of
        Inl e \<Rightarrow> Inl e
      | Inr st' \<Rightarrow> pred_thread L matrix rest st')"

fun Predict_tasks ::
  "Loss \<Rightarrow> DMatrix \<Rightarrow> index_t \<Rightarrow> c_int \<Rightarrow> nat list \<Rightarrow> Model \<times> real_t list
     \<Rightarrow> fault + Model \<times> real_t list" where
  "Predict_tasks L matrix row_len total' [] st = Inr st"
| "Predict_tasks L matrix row_len total' (t # rest) st =
     (case getStart row_len total' (word_of_nat t) of
        Inl e \<Rightarrow> Inl e
      | Inr s \<Rightarrow>
          (case getEnd row_len total' (word_of_nat t) of
             Inl e \<Rightarrow> Inl e
           | Inr e \<Rightarrow>
               (case pred_thread L matrix [unat s ..< unat e] st of
                  Inl e \<Rightarrow> Inl e
                | Inr st' \<Rightarrow> Predict_tasks L matrix row_len total' rest st')))"

definition Predict ::
  "Loss \<Rightarrow> DMatrix \<Rightarrow> Model \<Rightarrow> real_t list \<Rightarrow> fault + Model \<times> real_t list" where
  "Predict L matrix model pred =
     Predict_tasks L matrix (word_of_nat (length (row matrix))) (ucast (threadNumber' L))
       [0 ..< unat (threadNumber' L)] (model, pred)"

section \<open>The scenarios of loss_test.cc\<close>

text \<open>
  \<open>kLine = 10\<close> rows with label \<open>0\<close>, each with the features \<open>0, 1, 2\<close> of value
  \<open>1.0\<close>, added by \<open>matrix.AddNode(i, j, 1.0)\<close>; the ffm test adds them by
  \<open>matrix.AddNode(i, j, 1.0, j)\<close>, which gives feature \<open>j\<close> the field \<open>j\<close>. The rows
  are not normalised. The models have \<open>num_feature = 3\<close>,
  \<open>num_field = 3\<close> and \<open>num_K = 24\<close>, every entry of \<open>w\<close> set to \<open>2.0\<close> and every
  entry of \<open>v\<close> to \<open>1.0\<close>; the bias is \<open>0\<close>.
\<close>

definition kLine :: nat where
  "kLine = 10"

definition unit_row :: "bool \<Rightarrow> SparseRow" where
  "unit_row with_field =
     map (\<lambda>j. \<lparr>feat_id = j, feat_val = 1, field_id = (if with_field then j else 0)\<rparr>) [0 ..< 3]"

definition test_matrix :: "bool \<Rightarrow> DMatrix" where
  "test_matrix with_field =
     \<lparr>Y = replicate kLine 0, row = replicate kLine (unit_row with_field),
      row_norm = replicate kLine 1\<rparr>"

definition model_lr :: Model where
  "model_lr = \<lparr>num_feat = 3, num_field = 3, num_K = 24, bias = 0,
      param_w = replicate 3 2, param_v = []\<rparr>"

definition model_fm :: Model where
  "model_fm = \<lparr>num_feat = 3, num_field = 3, num_K = 24, bias = 0,
      param_w = replicate 3 2, param_v = replicate (3 * 24) 1\<rparr>"

definition model_ffm :: Model where
  "model_ffm = \<lparr>num_feat = 3, num_field = 3, num_K = 24, bias = 0,
      param_w = replicate 3 2, param_v = replicate (3 * 3 * 24) 1\<rparr>"

section \<open>The registry of loss functions\<close>

text \<open>
  Modelled from the spec: the macros of \<open>src/base/class_register.h\<close> and the
  registrations of the loss variants are not among the sources. The spec: "Variant
  selection is by a name-keyed factory registry (e.g. "squared", "hinge",
  "cross-entropy"); unregistered or empty names yield a null result rather than throwing".
  The registry is the list of registrations, a later one for the same name replacing an
  earlier one; the null result is \<open>None\<close>.
\<close>

datatype LossVariant = SquaredLoss | HingeLoss | CrossEntropyLoss

definition REGISTER_LOSS ::
  "string \<Rightarrow> LossVariant \<Rightarrow> (string \<times> LossVariant) list \<Rightarrow> (string \<times> LossVariant) list" where
  "REGISTER_LOSS format_name loss_name registry = (format_name, loss_name) # registry"

definition xLearn_loss_registry :: "(string \<times> LossVariant) list" where
  "xLearn_loss_registry =
     REGISTER_LOSS ''cross-entropy'' CrossEntropyLoss
       (REGISTER_LOSS ''hinge'' HingeLoss
          (REGISTER_LOSS ''squared'' SquaredLoss []))"

definition CREATE_LOSS :: "string \<Rightarrow> LossVariant option" where
  "CREATE_LOSS format_name = map_of xLearn_loss_registry format_name"

section \<open>Facts about the row ranges\<close>

lemma sint_32_cases:
  fixes w :: "32 word"
  shows "sint w = (if uint w < 2 ^ 31 then uint w else uint w - 2 ^ 32)"
proof -
  have b: "0 \<le> uint w" "uint w < 2 ^ 32"
    using uint_lt2p [of w] by simp_all
  have "sint w = (uint w + 2 ^ 31) mod 2 ^ 32 - 2 ^ 31"
    by (simp add: sint_uint signed_take_bit_eq_take_bit_shift take_bit_eq_mod)
  also have "\<dots> = (if uint w < 2 ^ 31 then uint w else uint w - 2 ^ 32)"
  proof (cases "uint w < 2 ^ 31")
    case True
    then have "(uint w + 2 ^ 31) mod 2 ^ 32 = uint w + 2 ^ 31"
      using b by (intro mod_pos_pos_trivial) simp_all
    with True show ?thesis by simp
  next
    case False
    then have "(uint w + 2 ^ 31) mod 2 ^ 32 = uint w + 2 ^ 31 - 2 ^ 32"
      using b by (subst mod_pos_geq) (simp_all add: mod_pos_pos_trivial)
    with False show ?thesis by simp
  qed
  finally show ?thesis .
qed

lemma total_pos_facts:
  fixes T :: c_int
  assumes "1 \<le> sint T"
  shows "T \<noteq> 0" and "0 < unat T" and "unat T < 2 ^ 31" and "int (unat T) = sint T"
proof -
  show "T \<noteq> 0" using assms by auto
  have b: "0 \<le> uint T" "uint T < 2 ^ 32"
    using uint_lt2p [of T] by simp_all
  have c: "uint T < 2 ^ 31 \<and> sint T = uint T"
    using assms b by (simp add: sint_32_cases split: if_splits)
  then show eq: "int (unat T) = sint T" by simp
  from eq assms show "0 < unat T" by linarith
  from c have "int (unat T) < 2 ^ 31" by simp
  then show "unat T < 2 ^ 31" by (simp only: of_nat_less_numeral_power_cancel_iff)
qed

lemma small_nat_word:
  assumes "t < 2 ^ 31"
  shows "unat (word_of_nat t :: c_int) = t" 
    and "sint (word_of_nat t :: c_int) = int t"
proof -
  show u: "unat (word_of_nat t :: c_int) = t"
    using assms by (simp add: unat_of_nat)
  then have "uint (word_of_nat t :: c_int) = int t"
    by (metis of_nat_unat) 
  then show "sint (word_of_nat t :: c_int) = int t"
    using assms by (simp add: sint_32_cases)
qed


lemma gap_mult_le:
  fixes N T :: "32 word"
  assumes "k \<le> unat T"
  shows "k * (unat N div unat T) \<le> unat N"
proof -
  have "k * (unat N div unat T) \<le> unat T * (unat N div unat T)"
    using assms by (rule mult_le_mono1)
  also have "\<dots> \<le> unat N" by simp
  finally show ?thesis .
qed

lemma unat_thread_mult:
  fixes N T :: "32 word"
  assumes "k \<le> unat T" "unat T < 2 ^ 31"
  shows "unat (word_of_nat k * (N div T) :: 32 word) = k * (unat N div unat T)"
proof -
  have k: "unat (word_of_nat k :: 32 word) = k"
    using assms by (simp add: unat_of_nat)
  have "k * (unat N div unat T) \<le> unat N"
    using assms(1) by (rule gap_mult_le)
  also have "unat N < 2 ^ 32"
    using unsigned_less [of N, where ?'a = nat] by simp
  finally have "unat (word_of_nat k :: 32 word) * unat (N div T) < 2 ^ LENGTH(32)"
    by (simp add: k unat_div)
  then have "unat (word_of_nat k * (N div T) :: 32 word) = unat (word_of_nat k :: 32 word) * unat (N div T)"
    by (simp only: unat_mult_lem)
  then show ?thesis by (simp add: k unat_div)
qed

lemma getStart_nat:
  assumes "1 \<le> sint T" "t < unat T"
  shows "\<exists>s. getStart N T (word_of_nat t) = Inr s \<and> unat s = t * (unat N div unat T)"
proof -
  note T = total_pos_facts [OF assms(1)]
  have "unat (word_of_nat t * (N div T) :: 32 word) = t * (unat N div unat T)"
    using assms(2) T(3) by (intro unat_thread_mult) simp_all
  then show ?thesis using T(1) by (simp add: getStart_def)
qed

lemma getEnd_nat:
  assumes "1 \<le> sint T" "t < unat T"
  shows "\<exists>e. getEnd N T (word_of_nat t) = Inr e \<and>
           unat e = (if Suc t = unat T then unat N else Suc t * (unat N div unat T))"
proof -
  note T = total_pos_facts [OF assms(1)]
  have t31: "t < 2 ^ 31" using assms(2) T(3) by simp
  have St31: "Suc t < 2 ^ 31" using assms(2) T(3) by simp
  have no_ovf: "sint (word_of_nat t :: c_int) \<noteq> 2 ^ 31 - 1"
    using small_nat_word(2) [OF t31] St31 by simp
  have no_min: "sint T \<noteq> - (2 ^ 31)" using assms(1) by simp
  have succ: "(word_of_nat t + 1 :: c_int) = word_of_nat (Suc t)" by simp
  have last_iff: "(word_of_nat t = T - 1) = (Suc t = unat T)"
  proof
    assume "word_of_nat t = T - 1"
    then have "word_of_nat (Suc t) = T" by simp
    then have "unat (word_of_nat (Suc t) :: c_int) = unat T" by simp
    then show "Suc t = unat T" using small_nat_word(1) [OF St31] by simp
  next
    assume "Suc t = unat T"
    then have "(word_of_nat (Suc t) :: c_int) = T" by simp
    then have "1 + (word_of_nat t :: c_int) = T" by simp
    then show "word_of_nat t = T - 1" by (simp add: algebra_simps eq_diff_eq)
  qed
  show ?thesis
  proof (cases "Suc t = unat T")
    case True
    then have "(word_of_nat (Suc t) :: c_int) = T" by simp
    then have "(word_of_nat t + 1) * (N div T) + N mod T = N"
      by (simp only: succ mult_div_mod_eq)
    then show ?thesis
      using T(1) no_ovf no_min last_iff True
      by (simp add: getEnd_def Let_def del: of_nat_Suc)
  next
    case False
    have "unat (word_of_nat (Suc t) * (N div T) :: 32 word) = Suc t * (unat N div unat T)"
      using assms(2) T(3) by (intro unat_thread_mult) simp_all
    then have "unat ((word_of_nat t + 1) * (N div T) :: 32 word) = Suc t * (unat N div unat T)"
      by (simp only: succ)
    then show ?thesis
      using T(1) no_ovf no_min last_iff False
      by (simp add: getEnd_def Let_def del: of_nat_Suc mult_Suc)
  qed
qed

lemma thread_rows_eq:
  assumes "1 \<le> sint T" "t < unat T"
  shows "thread_rows N T t =
           {t * (unat N div unat T) ..<
              (if Suc t = unat T then unat N else Suc t * (unat N div unat T))}"
proof -
  obtain s where s: "getStart N T (word_of_nat t) = Inr s" "unat s = t * (unat N div unat T)"
    using getStart_nat [OF assms] by blast
  obtain e where e: "getEnd N T (word_of_nat t) = Inr e"
      "unat e = (if Suc t = unat T then unat N else Suc t * (unat N div unat T))"
    using getEnd_nat [OF assms] by blast
  show ?thesis by (simp only: thread_rows_def s e sum.case)
qed

lemma thread_rows_prefix:
  assumes "1 \<le> sint T" "k < unat T"
  shows "(\<Union>t<k. thread_rows N T t) = {..<k * (unat N div unat T)}"
  using assms(2)
proof (induction k)
  case 0
  show ?case by simp
next
  case (Suc k)
  then have k: "k < unat T" "Suc k \<noteq> unat T" by simp_all
  have "(\<Union>t<Suc k. thread_rows N T t) = (\<Union>t<k. thread_rows N T t) \<union> thread_rows N T k"
    by (simp add: lessThan_Suc Un_commute)
  also have "\<dots> = {..<k * (unat N div unat T)} \<union>
      {k * (unat N div unat T) ..< Suc k * (unat N div unat T)}"
    using Suc.IH k thread_rows_eq [OF assms(1) k(1), of N] by simp
  also have "\<dots> = {..<Suc k * (unat N div unat T)}"
    by (rule ivl_disj_un) simp
  finally show ?case .
qed

lemma thread_rows_cover:
  assumes "1 \<le> sint T"
  shows "(\<Union>t<unat T. thread_rows N T t) = {..<unat N}"
proof -
  note T = total_pos_facts [OF assms]
  obtain k where k: "unat T = Suc k" using T(2) by (cases "unat T") simp_all
  have kT: "k < unat T" using k by simp
  have le: "k * (unat N div unat T) \<le> unat N"
    using gap_mult_le [of k T N] kT by simp
  have "(\<Union>t<unat T. thread_rows N T t) = (\<Union>t<k. thread_rows N T t) \<union> thread_rows N T k"
    by (simp add: k lessThan_Suc Un_commute)
  also have "\<dots> = {..<k * (unat N div unat T)} \<union> {k * (unat N div unat T) ..< unat N}"
    using thread_rows_prefix [OF assms kT, of N] thread_rows_eq [OF assms kT, of N] k by simp
  also have "\<dots> = {..<unat N}"
    using le by (rule ivl_disj_un)
  finally show ?thesis .
qed

lemma thread_rows_disjoint_lt:
  assumes "1 \<le> sint T" "t < u" "u < unat T"
  shows "thread_rows N T t \<inter> thread_rows N T u = {}"
proof -
  have t: "t < unat T" "Suc t \<noteq> unat T" using assms by simp_all
  have "Suc t * (unat N div unat T) \<le> u * (unat N div unat T)"
    using assms(2) by (intro mult_le_mono1) simp
  then show ?thesis
    using thread_rows_eq [OF assms(1) t(1), of N] thread_rows_eq [OF assms(1) assms(3), of N] t(2)
    by auto
qed

lemma thread_rows_disjoint:
  assumes "1 \<le> sint T" "t < unat T" "u < unat T" "t \<noteq> u"
  shows "thread_rows N T t \<inter> thread_rows N T u = {}"
proof (cases "t < u")
  case True
  then show ?thesis using assms by (intro thread_rows_disjoint_lt)
next
  case False
  then have "u < t" using assms(4) by simp
  then have "thread_rows N T u \<inter> thread_rows N T t = {}"
    using assms by (intro thread_rows_disjoint_lt)
  then show ?thesis by (simp add: Int_commute)
qed

lemma thread_rows_sizes:
  assumes "1 \<le> sint T"
  shows "(\<Sum>t<unat T. card (thread_rows N T t)) = unat N"
proof -
  have fin: "\<forall>t\<in>{..<unat T}. finite (thread_rows N T t)"
    using thread_rows_eq [OF assms, of _ N] by simp
  have dis: "\<forall>t\<in>{..<unat T}. \<forall>u\<in>{..<unat T}. t \<noteq> u \<longrightarrow> thread_rows N T t \<inter> thread_rows N T u = {}"
    using thread_rows_disjoint [OF assms, of _ _ N] by simp
  have "card (\<Union>t\<in>{..<unat T}. thread_rows N T t) = (\<Sum>t\<in>{..<unat T}. card (thread_rows N T t))"
    using fin dis by (intro card_UN_disjoint) simp_all
  then show ?thesis by (simp add: thread_rows_cover [OF assms])
qed

section \<open>The row partition\<close>

text \<open>
  Claim C1. For every row count \<open>N\<close> and every thread count \<open>T \<ge> 1\<close>, the \<open>T\<close>
  ranges from \<open>getStart N T t\<close> up to \<open>getEnd N T t\<close>, for \<open>t = 0, ..., T - 1\<close>,
  are computed without a fault and without wrap-around; thread \<open>t\<close> starts at
  \<open>t * (N div T)\<close> and ends at \<open>(t + 1) * (N div T)\<close>, the last one ending
  \<open>N mod T\<close> rows later, which is at \<open>N\<close>. The first range starts at \<open>0\<close>, each
  range ends where the next one starts, the ranges are pairwise disjoint, their union is
  the set of rows below \<open>N\<close>, and their sizes add up to \<open>N\<close>.
\<close>

theorem row_partition:
  fixes N :: index_t and T :: c_int
  assumes "1 \<le> sint T"
  shows "(\<forall>t<unat T. \<exists>s e.
            getStart N T (word_of_nat t) = Inr s \<and> getEnd N T (word_of_nat t) = Inr e \<and>
            unat s = t * (unat N div unat T) \<and>
            unat e = (if Suc t = unat T
                      then Suc t * (unat N div unat T) + unat N mod unat T
                      else Suc t * (unat N div unat T)))
       \<and> getStart N T 0 = Inr 0
       \<and> (\<forall>t. Suc t < unat T \<longrightarrow>
             getEnd N T (word_of_nat t) = getStart N T (word_of_nat (Suc t)))
       \<and> getEnd N T (T - 1) = Inr N
       \<and> (\<forall>t<unat T. \<forall>u<unat T. t \<noteq> u \<longrightarrow> thread_rows N T t \<inter> thread_rows N T u = {})
       \<and> (\<Union>t<unat T. thread_rows N T t) = {..<unat N}
       \<and> (\<Sum>t<unat T. card (thread_rows N T t)) = unat N"
proof -
  note T = total_pos_facts [OF assms]
  have last_eq: "unat T * (unat N div unat T) + unat N mod unat T = unat N"
    by simp
  have ranges: "\<forall>t<unat T. \<exists>s e.
            getStart N T (word_of_nat t) = Inr s \<and> getEnd N T (word_of_nat t) = Inr e \<and>
            unat s = t * (unat N div unat T) \<and>
            unat e = (if Suc t = unat T
                      then Suc t * (unat N div unat T) + unat N mod unat T
                      else Suc t * (unat N div unat T))"
  proof (intro allI impI)
    fix t assume t: "t < unat T"
    obtain s where s: "getStart N T (word_of_nat t) = Inr s" "unat s = t * (unat N div unat T)"
      using getStart_nat [OF assms t] by blast
    obtain e where e: "getEnd N T (word_of_nat t) = Inr e"
        "unat e = (if Suc t = unat T then unat N else Suc t * (unat N div unat T))"
      using getEnd_nat [OF assms t] by blast
    have "unat e = (if Suc t = unat T
                      then Suc t * (unat N div unat T) + unat N mod unat T
                      else Suc t * (unat N div unat T))"
      using e(2) last_eq by (simp del: mult_Suc)
    with s e(1) show "\<exists>s e.
            getStart N T (word_of_nat t) = Inr s \<and> getEnd N T (word_of_nat t) = Inr e \<and>
            unat s = t * (unat N div unat T) \<and>
            unat e = (if Suc t = unat T
                      then Suc t * (unat N div unat T) + unat N mod unat T
                      else Suc t * (unat N div unat T))"
      by blast
  qed
  have first: "getStart N T 0 = Inr 0"
    using T(1) by (simp add: getStart_def)
  have contig: "\<forall>t. Suc t < unat T \<longrightarrow>
             getEnd N T (word_of_nat t) = getStart N T (word_of_nat (Suc t))"
  proof (intro allI impI)
    fix t assume St: "Suc t < unat T"
    then have t: "t < unat T" "Suc t \<noteq> unat T" by simp_all
    obtain s where s: "getStart N T (word_of_nat (Suc t)) = Inr s"
        "unat s = Suc t * (unat N div unat T)"
      using getStart_nat [OF assms St] by blast
    obtain e where e: "getEnd N T (word_of_nat t) = Inr e"
        "unat e = Suc t * (unat N div unat T)"
      using getEnd_nat [OF assms t(1), of N] t(2) by auto
    from s(2) e(2) have "e = s" by (simp add: word_unat_eq_iff)
    with s(1) e(1) show "getEnd N T (word_of_nat t) = getStart N T (word_of_nat (Suc t))"
      by simp
  qed
  have last: "getEnd N T (T - 1) = Inr N"
  proof -
    obtain k where k: "unat T = Suc k" using T(2) by (cases "unat T") simp_all
    then have kT: "k < unat T" by simp
    have "word_of_nat (Suc k) = T" using k [symmetric] by simp
    then have "1 + (word_of_nat k :: c_int) = T" by simp
    then have wk: "(word_of_nat k :: c_int) = T - 1" by (simp add: algebra_simps eq_diff_eq)
    obtain e where e: "getEnd N T (word_of_nat k) = Inr e" "unat e = unat N"
      using getEnd_nat [OF assms kT, of N] k by auto
    from e(2) have "e = N" by (simp add: word_unat_eq_iff)
    with e(1) wk show ?thesis by simp
  qed
  have disj: "\<forall>t<unat T. \<forall>u<unat T. t \<noteq> u \<longrightarrow> thread_rows N T t \<inter> thread_rows N T u = {}"
    using thread_rows_disjoint [OF assms] by blast
  show ?thesis
    by (intro conjI ranges first contig last disj
          thread_rows_cover [OF assms] thread_rows_sizes [OF assms])
qed

text \<open>Ten rows on four threads: the ranges are 0-2, 2-4, 4-6 and 6-10.\<close>

theorem row_partition_witness:
  "1 \<le> sint (4 :: c_int)
   \<and> getStart 10 4 0 = Inr 0
   \<and> getEnd 10 4 (4 - 1) = Inr 10
   \<and> (\<Union>t<unat (4 :: c_int). thread_rows 10 4 t) = {..<unat (10 :: index_t)}
   \<and> (\<Sum>t<unat (4 :: c_int). card (thread_rows 10 4 t)) = unat (10 :: index_t)"
proof -
  have h: "1 \<le> sint (4 :: c_int)" by simp
  note r = row_partition [OF h, of 10]
  have cover: "(\<Union>t<unat (4 :: c_int). thread_rows 10 4 t) = {..<unat (10 :: index_t)}"
    using r by (elim conjE)
  have sizes: "(\<Sum>t<unat (4 :: c_int). card (thread_rows 10 4 t)) = unat (10 :: index_t)"
    using r by (elim conjE)
  have first: "getStart 10 4 0 = Inr 0"
    using r by (elim conjE)
  have last: "getEnd 10 4 (4 - 1) = Inr 10"
    using r by (elim conjE)
  show ?thesis by (intro conjI h first last cover sizes)
qed

section \<open>The elementwise loops of Sigmoid and Sign\<close>

declare Sigmoid_loop.simps [simp del] Sign_loop.simps [simp del]

lemma Sigmoid_loop_inv:
  "i \<le> length pred \<Longrightarrow> length new_pred = length pred \<Longrightarrow>
   Sigmoid_loop pred new_pred i = take i new_pred @ map sigmoid (drop i pred)"
proof (induction pred new_pred i rule: Sigmoid_loop.induct)
  case (1 pred new_pred i)
  show ?case
  proof (cases "i < length pred")
    case True
    let ?np = "new_pred[i := sigmoid (pred ! i)]"
    have "Sigmoid_loop pred new_pred i = Sigmoid_loop pred ?np (Suc i)"
      using True by (subst Sigmoid_loop.simps) simp
    also have "\<dots> = take (Suc i) ?np @ map sigmoid (drop (Suc i) pred)"
      using True "1.prems" by (intro "1.IH") simp_all
    also have "take (Suc i) ?np = take i new_pred @ [sigmoid (pred ! i)]"
      using True "1.prems" by (simp add: take_Suc_conv_app_nth)
    also have "(take i new_pred @ [sigmoid (pred ! i)]) @ map sigmoid (drop (Suc i) pred)
        = take i new_pred @ map sigmoid (drop i pred)"
      using True by (simp add: Cons_nth_drop_Suc [symmetric])
    finally show ?thesis .
  next
    case False
    then have "i = length pred" using "1.prems" by simp
    then show ?thesis using "1.prems" by (subst Sigmoid_loop.simps) simp
  qed
qed

lemma Sign_loop_inv:
  "i \<le> length pred \<Longrightarrow> length new_pred = length pred \<Longrightarrow>
   Sign_loop pred new_pred i =
     take i new_pred @ map (\<lambda>x. if x \<ge> 0 then 1 else 0) (drop i pred)"
proof (induction pred new_pred i rule: Sign_loop.induct)
  case (1 pred new_pred i)
  show ?case
  proof (cases "i < length pred")
    case True
    let ?v = "if pred ! i \<ge> 0 then 1 else 0 :: real"
    let ?np = "new_pred[i := ?v]"
    have "Sign_loop pred new_pred i = Sign_loop pred ?np (Suc i)"
      using True by (subst Sign_loop.simps) simp
    also have "\<dots> = take (Suc i) ?np @ map (\<lambda>x. if x \<ge> 0 then 1 else 0) (drop (Suc i) pred)"
      using True "1.prems" by (intro "1.IH") simp_all
    also have "take (Suc i) ?np = take i new_pred @ [?v]"
      using True "1.prems" by (simp add: take_Suc_conv_app_nth)
    also have "(take i new_pred @ [?v]) @ map (\<lambda>x. if x \<ge> 0 then 1 else 0) (drop (Suc i) pred)
        = take i new_pred @ map (\<lambda>x. if x \<ge> 0 then 1 else 0) (drop i pred)"
      using True by (simp add: Cons_nth_drop_Suc [symmetric])
    finally show ?thesis .
  next
    case False
    then have "i = length pred" using "1.prems" by simp
    then show ?thesis using "1.prems" by (subst Sign_loop.simps) simp
  qed
qed

lemma Sigmoid_equal_lengths:
  "length pred = length new_pred \<Longrightarrow> Sigmoid pred new_pred = Inr (map sigmoid pred)"
  by (simp add: Sigmoid_def Sigmoid_loop_inv)

lemma Sign_equal_lengths:
  "length pred = length new_pred \<Longrightarrow>
   Sign pred new_pred = Inr (map (\<lambda>x. if x \<ge> 0 then 1 else 0) pred)"
  by (simp add: Sign_def Sign_loop_inv)

section \<open>Sign\<close>

text \<open>
  Claim C5. For vectors \<open>pred\<close> and \<open>new_pred\<close> of equal length, \<open>Sign\<close> returns
  normally with an output of the same length in which entry \<open>i\<close> is \<open>1\<close> when
  \<open>pred[i] \<ge> 0\<close> and \<open>0\<close> when \<open>pred[i] < 0\<close>; no other value occurs in the output.
\<close>

theorem Sign_zero_one:
  assumes "length pred = length new_pred"
  shows "\<exists>out. Sign pred new_pred = Inr out \<and> length out = length pred
           \<and> (\<forall>i<length pred. (pred ! i \<ge> 0 \<longrightarrow> out ! i = 1) \<and> (pred ! i < 0 \<longrightarrow> out ! i = 0))
           \<and> set out \<subseteq> {0, 1}"
proof -
  let ?out = "map (\<lambda>x. if x \<ge> 0 then 1 else 0 :: real) pred"
  have "Sign pred new_pred = Inr ?out" using assms by (rule Sign_equal_lengths)
  moreover have "length ?out = length pred" by simp
  moreover have "\<forall>i<length pred. (pred ! i \<ge> 0 \<longrightarrow> ?out ! i = 1) \<and> (pred ! i < 0 \<longrightarrow> ?out ! i = 0)"
    by simp
  moreover have "set ?out \<subseteq> {0, 1}" by auto
  ultimately show ?thesis by blast
qed

text \<open>The six values of the test \<open>Sign_Test\<close>.\<close>

theorem Sign_zero_one_witness:
  "length [0.5, 3, 20, - 0.5, - 3, - 20 :: real] = length [0, 0, 0, 0, 0, 0 :: real]
   \<and> Sign [0.5, 3, 20, - 0.5, - 3, - 20] [0, 0, 0, 0, 0, 0] = Inr [1, 1, 1, 0, 0, 0]"
proof -
  have h: "length [0.5, 3, 20, - 0.5, - 3, - 20 :: real] = length [0, 0, 0, 0, 0, 0 :: real]"
    by simp
  obtain out where out: "Sign [0.5, 3, 20, - 0.5, - 3, - 20] [0, 0, 0, 0, 0, 0] = Inr out"
      "length out = length [0.5, 3, 20, - 0.5, - 3, - 20 :: real]"
      "\<forall>i<length [0.5, 3, 20, - 0.5, - 3, - 20 :: real].
         ([0.5, 3, 20, - 0.5, - 3, - 20 :: real] ! i \<ge> 0 \<longrightarrow> out ! i = 1) \<and>
         ([0.5, 3, 20, - 0.5, - 3, - 20 :: real] ! i < 0 \<longrightarrow> out ! i = 0)"
    using Sign_zero_one [OF h] by blast
  have "out = [1, 1, 1, 0, 0, 0]"
  proof (rule nth_equalityI)
    show "length out = length [1, 1, 1, 0, 0, 0 :: real]" using out(2) by simp
  next
    fix i assume "i < length out"
    then have "i < 6" using out(2) by simp
    then consider "i = 0" | "i = 1" | "i = 2" | "i = 3" | "i = 4" | "i = 5" by linarith
    then show "out ! i = [1, 1, 1, 0, 0, 0] ! i"
      using out(3) by cases (auto simp: nth_Cons')
  qed
  with out(1) h show ?thesis by simp
qed

section \<open>The size check\<close>

text \<open>
  Claim C8. Called with vectors of different lengths, \<open>Sigmoid\<close>, \<open>Sign\<close> and
  \<open>Evalute\<close> end in the fatal result of the failed \<open>CHECK_EQ\<close> and return nothing;
  called with vectors of equal length, each of them passes the check and returns a result.
\<close>

theorem length_check_fatal:
  "(length pred \<noteq> length new_pred \<longrightarrow>
      Sigmoid pred new_pred = Inl CheckFailed \<and> Sign pred new_pred = Inl CheckFailed
      \<and> Evalute variant pred new_pred = Inl CheckFailed)
   \<and> (length pred = length new_pred \<longrightarrow>
      (\<exists>out. Sigmoid pred new_pred = Inr out) \<and> (\<exists>out. Sign pred new_pred = Inr out)
      \<and> (\<exists>val. Evalute variant pred new_pred = Inr val))"
  by (simp add: Sigmoid_def Sign_def Evalute_def)

text \<open>Lengths 2 and 1 fail the check; lengths 2 and 2 pass it.\<close>

theorem length_check_fatal_witness:
  "Sigmoid [0, 1] [0] = Inl CheckFailed \<and> Sign [0, 1] [0] = Inl CheckFailed
   \<and> Evalute (\<lambda>p l. 0) [0, 1] [0] = Inl CheckFailed
   \<and> (\<exists>out. Sigmoid [0, 1] [0, 0] = Inr out) \<and> (\<exists>out. Sign [0, 1] [0, 0] = Inr out)
   \<and> (\<exists>val. Evalute (\<lambda>p l. 0) [0, 1] [0, 0] = Inr val)"
proof -
  have a: "length [0, 1 :: real] \<noteq> length [0 :: real]" by simp
  have b: "length [0, 1 :: real] = length [0, 0 :: real]" by simp
  from length_check_fatal [of "[0, 1]" "[0]" "\<lambda>p l. 0"] a
    length_check_fatal [of "[0, 1]" "[0, 0]" "\<lambda>p l. 0"] b
  show ?thesis by blast
qed

text \<open>The test double of loss_test.cc accepts vectors of different lengths.\<close>

lemma TestLoss_Evalute_unchecked: "TestLoss_Evalute [0, 1] [0] = Inr 0"
  by (simp add: TestLoss_Evalute_def)

section \<open>The sigmoid over the reals\<close>

text \<open>
  The next lemmas are about the function \<open>x \<mapsto> 1 / (1 + exp (- x))\<close> on the real
  numbers, and about \<open>Sigmoid\<close> applying \<open>sigmoid\<close> to every entry. They say nothing
  about the rounded \<open>float\<close> computation: a \<open>float\<close> has about \<open>2 ^ 31\<close> values that
  are not negative and only \<open>2 ^ 23 + 1\<close> values from \<open>0.5\<close> to \<open>1\<close>, so the rounded
  function takes equal values at some different arguments.
\<close>

lemma sigmoid_zero: "sigmoid 0 = 1 / 2"
  by (simp add: sigmoid_def)

lemma sigmoid_strict_mono: "x < y \<Longrightarrow> sigmoid x < sigmoid y"
proof -
  assume "x < y"
  then have "exp (- y) < exp (- x)" by simp
  then have "1 + exp (- y) < 1 + exp (- x)" by simp
  moreover have "0 < 1 + exp (- y)" by (simp add: add_pos_pos)
  ultimately have "1 / (1 + exp (- x)) < 1 / (1 + exp (- y))"
    by (simp add: frac_less2)
  then show ?thesis by (simp add: sigmoid_def)
qed

section \<open>Division by the thread count\<close>

text \<open>
  Claim C10. \<open>getStart\<close> and \<open>getEnd\<close> divide by \<open>total\<close> without a guard: they
  end in the division-by-zero fault when \<open>total = 0\<close>, and only then. Under the
  precondition \<open>total \<ge> 1\<close> that fault does not occur, and for every thread index below
  \<open>total\<close> both return a result. \<open>Loss::Initialize\<close> stores a thread count of \<open>0\<close>
  when \<open>hardware_concurrency()\<close> returns \<open>0\<close>, and with that count as \<open>total\<close> both
  functions end in the fault.
\<close>

theorem division_guard:
  "getStart count 0 id' = Inl DivisionByZero
   \<and> getEnd count 0 id' = Inl DivisionByZero
   \<and> (getStart count total' id' = Inl DivisionByZero) = (total' = 0)
   \<and> (getEnd count total' id' = Inl DivisionByZero) = (total' = 0)
   \<and> (1 \<le> sint total' \<longrightarrow>
        getStart count total' id' \<noteq> Inl DivisionByZero \<and> getEnd count total' id' \<noteq> Inl DivisionByZero
        \<and> (\<forall>t<unat total'. \<exists>s e. getStart count total' (word_of_nat t) = Inr s
                                \<and> getEnd count total' (word_of_nat t) = Inr e))
   \<and> threadNumber' (Initialize score norm0 0) = 0
   \<and> getStart count (ucast (threadNumber' (Initialize score norm0 0))) id' = Inl DivisionByZero
   \<and> getEnd count (ucast (threadNumber' (Initialize score norm0 0))) id' = Inl DivisionByZero"
proof -
  have s0: "getStart count 0 id' = Inl DivisionByZero" by (simp add: getStart_def)
  have e0: "getEnd count 0 id' = Inl DivisionByZero" by (simp add: getEnd_def)
  have si: "(getStart count total' id' = Inl DivisionByZero) = (total' = 0)"
    by (simp add: getStart_def Let_def)
  have ei: "(getEnd count total' id' = Inl DivisionByZero) = (total' = 0)"
    by (simp add: getEnd_def Let_def)
  have pre: "1 \<le> sint total' \<longrightarrow>
        getStart count total' id' \<noteq> Inl DivisionByZero \<and> getEnd count total' id' \<noteq> Inl DivisionByZero
        \<and> (\<forall>t<unat total'. \<exists>s e. getStart count total' (word_of_nat t) = Inr s
                                \<and> getEnd count total' (word_of_nat t) = Inr e)"
  proof
    assume T: "1 \<le> sint total'"
    then have nz: "total' \<noteq> 0" by (rule total_pos_facts(1))
    have "\<forall>t<unat total'. \<exists>s e. getStart count total' (word_of_nat t) = Inr s
                                \<and> getEnd count total' (word_of_nat t) = Inr e"
      using getStart_nat [OF T, of _ count] getEnd_nat [OF T, of _ count] by blast
    with nz si ei show "getStart count total' id' \<noteq> Inl DivisionByZero \<and> getEnd count total' id' \<noteq> Inl DivisionByZero
        \<and> (\<forall>t<unat total'. \<exists>s e. getStart count total' (word_of_nat t) = Inr s
                                \<and> getEnd count total' (word_of_nat t) = Inr e)"
      by simp
  qed
  have tn: "threadNumber' (Initialize score norm0 0) = 0" by (simp add: Initialize_def)
  from s0 e0 si ei pre tn show ?thesis by simp
qed

text \<open>Ten rows: no thread at all, and the last of four threads.\<close>

theorem division_guard_witness:
  "1 \<le> sint (4 :: c_int)
   \<and> getStart 10 0 0 = Inl DivisionByZero
   \<and> getEnd 10 0 0 = Inl DivisionByZero
   \<and> getStart 10 4 3 \<noteq> Inl DivisionByZero
   \<and> getEnd 10 4 3 \<noteq> Inl DivisionByZero"
proof -
  have h: "1 \<le> sint (4 :: c_int)" by simp
  from division_guard [of 10 0 0] division_guard [of 10 3 4] h show ?thesis by blast
qed

lemma pred_row_Inr:
  assumes "pred_row L matrix i (model, pred) = Inr (model', pred')"
  shows "model' = model" and "length pred' = length pred" and "i < length pred"
    and "i < length (row matrix)"
    and "row_score L matrix model i = Inr (pred' ! i)"
    and "\<And>j. j \<noteq> i \<Longrightarrow> pred' ! j = pred ! j"
  using assms
  by (auto simp: pred_row_def split: if_splits sum.splits)

lemma pred_thread_Inr:
  assumes "pred_thread L matrix rows (model, pred) = Inr (model', pred')"
    and "\<forall>j\<in>S. j < length (row matrix) \<and> row_score L matrix model j = Inr (pred ! j)"
  shows "model' = model \<and> length pred' = length pred \<and>
         (\<forall>j\<in>S \<union> set rows. j < length (row matrix) \<and> row_score L matrix model j = Inr (pred' ! j))"
  using assms
proof (induction rows arbitrary: pred S)
  case Nil
  then show ?case by simp
next
  case (Cons i rest)
  from Cons.prems(1) obtain m1 p1 where
    step: "pred_row L matrix i (model, pred) = Inr (m1, p1)" and
    rest: "pred_thread L matrix rest (m1, p1) = Inr (model', pred')"
    by (auto split: sum.splits)
  note r = pred_row_Inr [OF step]
  have good: "\<forall>j\<in>insert i S. j < length (row matrix) \<and> row_score L matrix model j = Inr (p1 ! j)"
  proof
    fix j assume j: "j \<in> insert i S"
    show "j < length (row matrix) \<and> row_score L matrix model j = Inr (p1 ! j)"
    proof (cases "j = i")
      case True
      then show ?thesis using r(4) r(5) by simp
    next
      case False
      then have "j \<in> S" using j by simp
      then show ?thesis using Cons.prems(2) r(6) [OF False] by simp
    qed
  qed
  have "model' = model \<and> length pred' = length p1 \<and>
         (\<forall>j\<in>insert i S \<union> set rest. j < length (row matrix) \<and> row_score L matrix model j = Inr (pred' ! j))"
    using rest good r(1) by (intro Cons.IH) simp_all
  then show ?case using r(2) by simp
qed

lemma pred_thread_total:
  assumes "\<forall>j\<in>set rows. j < length (row matrix) \<and> j < length (row_norm matrix) \<and> j < length pred
              \<and> (\<exists>s. row_score L matrix model j = Inr s)"
  shows "\<exists>pred'. pred_thread L matrix rows (model, pred) = Inr (model, pred')"
  using assms
proof (induction rows arbitrary: pred)
  case Nil
  show ?case by simp
next
  case (Cons i rest)
  then obtain s where s: "row_score L matrix model i = Inr s" by auto
  have step: "pred_row L matrix i (model, pred) = Inr (model, pred[i := s])"
    using Cons.prems s by (simp add: pred_row_def)
  have "\<exists>pred'. pred_thread L matrix rest (model, pred[i := s]) = Inr (model, pred')"
    using Cons.prems by (intro Cons.IH) simp
  then show ?case using step by simp
qed

lemma thread_rows_Inr:
  assumes "getStart N T (word_of_nat t) = Inr s" "getEnd N T (word_of_nat t) = Inr e"
  shows "thread_rows N T t = set [unat s ..< unat e]"
  using assms by (simp add: thread_rows_def)

lemma Predict_tasks_Inr:
  assumes "Predict_tasks L matrix N T ts (model, pred) = Inr (model', pred')"
    and "\<forall>j\<in>S. j < length (row matrix) \<and> row_score L matrix model j = Inr (pred ! j)"
  shows "model' = model \<and> length pred' = length pred \<and>
         (\<forall>j\<in>S \<union> (\<Union>t\<in>set ts. thread_rows N T t).
            j < length (row matrix) \<and> row_score L matrix model j = Inr (pred' ! j))"
  using assms
proof (induction ts arbitrary: pred S)
  case Nil
  then show ?case by simp
next
  case (Cons t rest)
  from Cons.prems(1) obtain s e m1 p1 where
    s: "getStart N T (word_of_nat t) = Inr s" and
    e: "getEnd N T (word_of_nat t) = Inr e" and
    task: "pred_thread L matrix [unat s ..< unat e] (model, pred) = Inr (m1, p1)" and
    rest: "Predict_tasks L matrix N T rest (m1, p1) = Inr (model', pred')"
    by (auto split: sum.splits)
  have tr: "thread_rows N T t = set [unat s ..< unat e]"
    using s e by (rule thread_rows_Inr)
  have g1: "m1 = model \<and> length p1 = length pred \<and>
         (\<forall>j\<in>S \<union> thread_rows N T t. j < length (row matrix) \<and> row_score L matrix model j = Inr (p1 ! j))"
    unfolding tr using task Cons.prems(2) by (rule pred_thread_Inr)
  then have m1: "m1 = model" and l1: "length p1 = length pred" and
    good: "\<forall>j\<in>S \<union> thread_rows N T t. j < length (row matrix) \<and> row_score L matrix model j = Inr (p1 ! j)"
    by simp_all
  have "model' = model \<and> length pred' = length p1 \<and>
         (\<forall>j\<in>(S \<union> thread_rows N T t) \<union> (\<Union>t\<in>set rest. thread_rows N T t).
            j < length (row matrix) \<and> row_score L matrix model j = Inr (pred' ! j))"
    using rest good unfolding m1 by (rule Cons.IH)
  then show ?case using l1 by (simp add: Un_assoc)
qed

lemma thread_rows_bound:
  assumes "1 \<le> sint T" "t < unat T"
  shows "thread_rows N T t \<subseteq> {..<unat N}"
  using thread_rows_cover [OF assms(1), of N] assms(2) by blast

lemma Predict_tasks_total:
  assumes "1 \<le> sint T" "\<forall>t\<in>set ts. t < unat T"
    and "unat N \<le> length (row matrix)" "unat N \<le> length (row_norm matrix)" "unat N \<le> length pred"
    and "\<forall>j<unat N. \<exists>s. row_score L matrix model j = Inr s"
  shows "\<exists>pred'. Predict_tasks L matrix N T ts (model, pred) = Inr (model, pred')
           \<and> length pred' = length pred"
  using assms(2,5)
proof (induction ts arbitrary: pred)
  case Nil
  show ?case by simp
next
  case (Cons t rest)
  then have t: "t < unat T" by simp
  obtain s where s: "getStart N T (word_of_nat t) = Inr s"
    using getStart_nat [OF assms(1) t, of N] by blast
  obtain e where e: "getEnd N T (word_of_nat t) = Inr e"
    using getEnd_nat [OF assms(1) t, of N] by blast
  have sub: "set [unat s ..< unat e] \<subseteq> {..<unat N}"
    using thread_rows_bound [OF assms(1) t, of N] thread_rows_Inr [OF s e] by simp
  have "\<forall>j\<in>set [unat s ..< unat e]. j < length (row matrix) \<and> j < length (row_norm matrix)
            \<and> j < length pred \<and> (\<exists>s. row_score L matrix model j = Inr s)"
  proof
    fix j assume "j \<in> set [unat s ..< unat e]"
    then have "j < unat N" using sub by blast
    then show "j < length (row matrix) \<and> j < length (row_norm matrix)
            \<and> j < length pred \<and> (\<exists>s. row_score L matrix model j = Inr s)"
      using assms(3,4,6) Cons.prems(2) by simp
  qed
  then obtain p1 where p1: "pred_thread L matrix [unat s ..< unat e] (model, pred) = Inr (model, p1)"
    using pred_thread_total by blast
  have l1: "length p1 = length pred"
    using pred_thread_Inr [OF p1, of "{}"] by simp
  have "\<exists>pred'. Predict_tasks L matrix N T rest (model, p1) = Inr (model, pred')
           \<and> length pred' = length p1"
    using Cons.prems l1 by (intro Cons.IH) simp_all
  then show ?case using s e p1 l1 by simp
qed

lemma thread_count_facts:
  fixes n :: size_t
  assumes "1 \<le> unat n" "unat n < 2 ^ 31"
  shows "unat (ucast n :: c_int) = unat n" and "1 \<le> sint (ucast n :: c_int)"
proof -
  show u: "unat (ucast n :: c_int) = unat n"
    using assms(2) by (simp add: unsigned_ucast_eq take_bit_nat_eq_self)
  have c: "uint (ucast n :: c_int) = uint n"
    using u by (metis of_nat_unat)
  have "int 1 \<le> int (unat n)" using assms(1) by (simp only: of_nat_le_iff)
  moreover have "int (unat n) < int (2 ^ 31)" using assms(2) by (simp only: of_nat_less_iff)
  ultimately have "1 \<le> uint n" "uint n < 2 ^ 31" by simp_all
  then show "1 \<le> sint (ucast n :: c_int)"
    by (simp add: sint_32_cases c)
qed

lemma row_count_unat:
  assumes "n < 2 ^ 32"
  shows "unat (word_of_nat n :: index_t) = n"
  using assms by (simp add: unat_of_nat)

lemma Predict_Inr:
  assumes "Predict L matrix model pred = Inr (model', pred')"
  shows "model' = model \<and> length pred' = length pred"
  using Predict_tasks_Inr [OF assms [unfolded Predict_def], of "{}"] by simp

lemma Predict_rows:
  assumes "Predict L matrix model pred = Inr (model', pred')"
    and "1 \<le> unat (threadNumber' L)" "unat (threadNumber' L) < 2 ^ 31"
    and "length (row matrix) < 2 ^ 32"
    and "i < length (row matrix)"
  shows "row_score L matrix model i = Inr (pred' ! i)"
proof -
  let ?T = "ucast (threadNumber' L) :: c_int"
  let ?N = "word_of_nat (length (row matrix)) :: index_t"
  note T = thread_count_facts [OF assms(2,3)]
  have N: "unat ?N = length (row matrix)" using assms(4) by (rule row_count_unat)
  have cover: "(\<Union>t\<in>set [0 ..< unat (threadNumber' L)]. thread_rows ?N ?T t) = {..<length (row matrix)}"
    using thread_rows_cover [OF T(2), of ?N] by (simp add: T(1) N lessThan_atLeast0)
  have "\<forall>j\<in>{} \<union> (\<Union>t\<in>set [0 ..< unat (threadNumber' L)]. thread_rows ?N ?T t).
            j < length (row matrix) \<and> row_score L matrix model j = Inr (pred' ! j)"
    using Predict_tasks_Inr [OF assms(1) [unfolded Predict_def], of "{}"] by simp
  then have "\<forall>j\<in>{..<length (row matrix)}. row_score L matrix model j = Inr (pred' ! j)"
    unfolding cover by simp
  then show ?thesis using assms(5) by simp
qed

lemma Predict_total:
  assumes "1 \<le> unat (threadNumber' L)" "unat (threadNumber' L) < 2 ^ 31"
    and "length (row matrix) < 2 ^ 32"
    and "length pred = length (row matrix)" "length (row_norm matrix) = length (row matrix)"
    and "\<forall>i<length (row matrix). \<exists>s. row_score L matrix model i = Inr s"
  shows "\<exists>pred'. Predict L matrix model pred = Inr (model, pred')"
proof -
  let ?T = "ucast (threadNumber' L) :: c_int"
  let ?N = "word_of_nat (length (row matrix)) :: index_t"
  note T = thread_count_facts [OF assms(1,2)]
  have N: "unat ?N = length (row matrix)" using assms(3) by (rule row_count_unat)
  have "\<exists>pred'. Predict_tasks L matrix ?N ?T [0 ..< unat (threadNumber' L)] (model, pred) = Inr (model, pred')
           \<and> length pred' = length pred"
    using T(2) assms(4,5,6) by (intro Predict_tasks_total) (simp_all add: T(1) N)
  then show ?thesis by (auto simp: Predict_def)
qed

lemma Predict_constant:
  assumes "1 \<le> unat (threadNumber' L)" "unat (threadNumber' L) < 2 ^ 31"
    and "length (row matrix) = n" "length (row_norm matrix) = n" "n < 2 ^ 32"
    and "\<forall>i<n. row_score L matrix model i = Inr c"
  shows "Predict L matrix model (replicate n 0) = Inr (model, replicate n c)"
proof -
  have len: "length (row matrix) < 2 ^ 32" using assms(3,5) by simp
  obtain pred' where p: "Predict L matrix model (replicate n 0) = Inr (model, pred')"
    using Predict_total [OF assms(1,2) len, of "replicate n 0" model] assms(3,4,6) by auto
  have l: "length pred' = n" using Predict_Inr [OF p] by simp
  have "pred' = replicate n c"
  proof (rule nth_equalityI)
    show "length pred' = length (replicate n c)" using l by simp
  next
    fix i assume "i < length pred'"
    then have i: "i < length (row matrix)" using l assms(3) by simp
    have "row_score L matrix model i = Inr (pred' ! i)"
      using p assms(1,2) len i by (rule Predict_rows)
    moreover have "row_score L matrix model i = Inr c" using assms(3,6) i by simp
    ultimately show "pred' ! i = replicate n c ! i" using i assms(3) by simp
  qed
  with p show ?thesis by simp
qed

lemma Initialize_threads:
  fixes hc :: "32 word"
  assumes "1 \<le> sint hc"
  shows "1 \<le> unat (threadNumber' (Initialize score norm0 hc))"
    and "unat (threadNumber' (Initialize score norm0 hc)) < 2 ^ 31"
proof -
  note T = total_pos_facts [OF assms]
  have "unat hc < 2 ^ 64" using T(3) by simp
  then have "unat (ucast hc :: size_t) = unat hc"
    by (simp add: unsigned_ucast_eq take_bit_nat_eq_self)
  then show "1 \<le> unat (threadNumber' (Initialize score norm0 hc))"
    and "unat (threadNumber' (Initialize score norm0 hc)) < 2 ^ 31"
    using T(2,3) by (simp_all add: Initialize_def)
qed

lemma unit_row_simp:
  "unit_row b = [\<lparr>feat_id = 0, feat_val = 1, field_id = 0\<rparr>,
     \<lparr>feat_id = 1, feat_val = 1, field_id = (if b then 1 else 0)\<rparr>,
     \<lparr>feat_id = 2, feat_val = 1, field_id = (if b then 2 else 0)\<rparr>]"
  by (simp add: unit_row_def upt_rec)

lemma dot_ones: "dot (replicate n 1) (replicate n 1) = real n"
  by (simp add: dot_def sum_list_replicate)

lemma linear_term_lr: "linear_term model_lr (unit_row False) = 6"
  by (simp add: unit_row_simp model_lr_def linear_term_def nth_Cons')

lemma linear_term_fm: "linear_term model_fm (unit_row False) = 6"
  by (simp add: unit_row_simp model_fm_def linear_term_def nth_Cons')

lemma linear_term_ffm: "linear_term model_ffm (unit_row True) = 6"
  by (simp add: unit_row_simp model_ffm_def linear_term_def nth_Cons')

lemma fm_term_fm: "fm_term model_fm (unit_row False) = 72"
  by (simp add: unit_row_simp model_fm_def fm_term_def fm_vector_def dot_ones)

lemma ffm_term_ffm: "ffm_term model_ffm (unit_row True) = 72"
  by (simp add: unit_row_simp model_ffm_def ffm_term_def ffm_vector_def dot_ones)

lemma score_lr: "CalcScore LinearScore (unit_row False) model_lr 1 = Inr 6"
  by (simp add: CalcScore_def linear_term_lr)
    (simp add: shape_ok_def row_ok_def unit_row_simp model_lr_def)

lemma score_fm: "CalcScore FMScore (unit_row False) model_fm 1 = Inr 78"
  by (simp add: CalcScore_def linear_term_fm fm_term_fm)
    (simp add: shape_ok_def row_ok_def unit_row_simp model_fm_def)

lemma score_ffm: "CalcScore FFMScore (unit_row True) model_ffm 1 = Inr 78"
  by (simp add: CalcScore_def linear_term_ffm ffm_term_ffm)
    (simp add: shape_ok_def row_ok_def unit_row_simp model_ffm_def)

lemma test_matrix_row_score:
  assumes "i < kLine"
  shows "row_score (Initialize score norm0 hc) (test_matrix b) model i =
           CalcScore score (unit_row b) model 1"
  using assms by (simp add: row_score_def test_matrix_def Initialize_def)

lemma Predict_test_matrix:
  assumes "1 \<le> sint hc" "CalcScore score (unit_row b) model 1 = Inr c"
  shows "Predict (Initialize score norm0 hc) (test_matrix b) model (replicate kLine 0)
           = Inr (model, replicate kLine c)"
proof (rule Predict_constant)
  show "1 \<le> unat (threadNumber' (Initialize score norm0 hc))"
    using assms(1) by (rule Initialize_threads(1))
  show "unat (threadNumber' (Initialize score norm0 hc)) < 2 ^ 31"
    using assms(1) by (rule Initialize_threads(2))
  show "length (row (test_matrix b)) = kLine" by (simp add: test_matrix_def)
  show "length (row_norm (test_matrix b)) = kLine" by (simp add: test_matrix_def)
  show "kLine < 2 ^ 32" by (simp add: kLine_def)
  show "\<forall>i<kLine. row_score (Initialize score norm0 hc) (test_matrix b) model i = Inr c"
    using assms(2) by (simp add: test_matrix_row_score)
qed

section \<open>The prediction scenarios\<close>

text \<open>
  Claim C4. The linear model with every weight \<open>2.0\<close> and bias \<open>0\<close> scores a row of
  three features of value \<open>1.0\<close> with \<open>6.0\<close>, and \<open>Predict\<close>, on any positive
  number of threads, stores \<open>6.0\<close> for each of the ten rows of the test.
\<close>

theorem Predict_Linear:
  "CalcScore LinearScore (unit_row False) model_lr 1 = Inr 6
   \<and> (1 \<le> sint hc \<longrightarrow>
        Predict (Initialize LinearScore norm0 hc) (test_matrix False) model_lr (replicate kLine 0)
          = Inr (model_lr, replicate kLine 6))"
  using score_lr Predict_test_matrix [OF _ score_lr] by simp

text \<open>Four threads, normalisation switched on as \<open>Initialize\<close> does by default.\<close>

theorem Predict_Linear_witness:
  "1 \<le> sint (4 :: 32 word)
   \<and> Predict (Initialize LinearScore True 4) (test_matrix False) model_lr (replicate kLine 0)
       = Inr (model_lr, replicate kLine 6)"
proof -
  have h: "1 \<le> sint (4 :: 32 word)" by simp
  from Predict_Linear [of 4 True] h show ?thesis by simp
qed

text \<open>
  Claim C2. The fm model with every \<open>w = 2.0\<close>, every \<open>v = 1.0\<close>, \<open>num_K = 24\<close> and
  bias \<open>0\<close> scores a row of three features \<open>0, 1, 2\<close> of value \<open>1.0\<close> with
  \<open>78.0\<close>: the linear term is \<open>6.0\<close> and the pairwise term is \<open>24 * 1 * 3\<close>.
  \<open>Predict\<close>, on any positive number of threads, stores \<open>78.0\<close> for each of the ten
  rows of the test.
\<close>

theorem Predict_FM:
  "linear_term model_fm (unit_row False) = 6
   \<and> fm_term model_fm (unit_row False) = 24 * 1 * 3
   \<and> CalcScore FMScore (unit_row False) model_fm 1 = Inr 78
   \<and> (1 \<le> sint hc \<longrightarrow>
        Predict (Initialize FMScore norm0 hc) (test_matrix False) model_fm (replicate kLine 0)
          = Inr (model_fm, replicate kLine 78))"
  using linear_term_fm fm_term_fm score_fm Predict_test_matrix [OF _ score_fm] by simp

text \<open>The fm scenario on four threads.\<close>

theorem Predict_FM_witness:
  "1 \<le> sint (4 :: 32 word)
   \<and> Predict (Initialize FMScore True 4) (test_matrix False) model_fm (replicate kLine 0)
       = Inr (model_fm, replicate kLine 78)"
proof -
  have h: "1 \<le> sint (4 :: 32 word)" by simp
  from Predict_FM [of 4 True] h show ?thesis by simp
qed

text \<open>
  Claim C3. The ffm model with the same parameters, on rows whose three features have the
  distinct fields \<open>0, 1, 2\<close>, also predicts \<open>78.0\<close>: with all latent vectors equal,
  the field-aware pairwise sum has the value of the fm pairwise sum.
\<close>

theorem Predict_FFM:
  "ffm_term model_ffm (unit_row True) = fm_term model_fm (unit_row False)
   \<and> CalcScore FFMScore (unit_row True) model_ffm 1 = Inr 78
   \<and> (1 \<le> sint hc \<longrightarrow>
        Predict (Initialize FFMScore norm0 hc) (test_matrix True) model_ffm (replicate kLine 0)
          = Inr (model_ffm, replicate kLine 78))"
  using ffm_term_ffm fm_term_fm score_ffm Predict_test_matrix [OF _ score_ffm] by simp

text \<open>The ffm scenario on four threads.\<close>

theorem Predict_FFM_witness:
  "1 \<le> sint (4 :: 32 word)
   \<and> Predict (Initialize FFMScore True 4) (test_matrix True) model_ffm (replicate kLine 0)
       = Inr (model_ffm, replicate kLine 78)"
proof -
  have h: "1 \<le> sint (4 :: 32 word)" by simp
  from Predict_FFM [of 4 True] h show ?thesis by simp
qed

section \<open>Creating a loss by name\<close>

text \<open>
  Claim C7. Creating a loss through the registry with one of the registered names
  \<open>squared\<close>, \<open>hinge\<close> and \<open>cross-entropy\<close> gives a result that is not null; the empty
  name, the name \<open>unknow_name\<close> and every other name that is not registered give the null
  result, without a fault.
\<close>

theorem Create_Loss:
  "CREATE_LOSS ''squared'' \<noteq> None
   \<and> CREATE_LOSS ''hinge'' \<noteq> None
   \<and> CREATE_LOSS ''cross-entropy'' \<noteq> None
   \<and> CREATE_LOSS '''' = None
   \<and> CREATE_LOSS ''unknow_name'' = None
   \<and> (CREATE_LOSS format_name = None)
       = (format_name \<notin> {''squared'', ''hinge'', ''cross-entropy''})"
  by (simp add: CREATE_LOSS_def xLearn_loss_registry_def REGISTER_LOSS_def)

end
